theory Spec2Isabelle
  imports Complex_Main "HOL-Library.Word"
begin

section \<open>Numbers of the script\<close>

text \<open>
  The script computes with JavaScript numbers. This development reads them as exact
  real numbers: rounding to the nearest double (and to the nearest single, where the
  script stores into a \<open>Float32Array\<close>) is not represented, and neither is overflow
  to an infinite value. The one special value the script can reach from finite inputs
  by a path that matters below is \<open>NaN\<close> (a remainder by zero, and \<open>0 / 0\<close>); a
  number that may be \<open>NaN\<close> has the type \<open>num\<close>, with \<open>None\<close> for \<open>NaN\<close>.
\<close>

type_synonym num = "real option"

text \<open>The configuration constants at the head of \<open>script.js\<close>.\<close>

definition FRICTION :: real where "FRICTION = 9 / 10"
definition WHEEL_SENS :: real where "WHEEL_SENS = 6 / 10"
definition DRAG_SENS :: real where "DRAG_SENS = 1"
definition MAX_ROTATION :: real where "MAX_ROTATION = 28"
definition MAX_DEPTH :: real where "MAX_DEPTH = 140"
definition MIN_SCALE :: real where "MIN_SCALE = 92 / 100"
definition SCALE_RANGE :: real where "SCALE_RANGE = 1 / 10"

text \<open>
  The remainder operator \<open>%\<close> on finite operands with a non-zero divisor: the result
  has the sign of the dividend, \<open>n - m * trunc (n / m)\<close>, and is exact.
\<close>

definition trunc :: "real \<Rightarrow> int" where
  "trunc x = (if 0 \<le> x then \<lfloor>x\<rfloor> else \<lceil>x\<rceil>)"

definition fmod :: "real \<Rightarrow> real \<Rightarrow> real" where
  "fmod n m = n - m * of_int (trunc (n / m))"

text \<open>\<open>n % m\<close> on numbers: \<open>NaN\<close> when \<open>n\<close> is \<open>NaN\<close> or \<open>m\<close> is zero.\<close>

definition js_rem :: "num \<Rightarrow> real \<Rightarrow> num" where
  "js_rem n m = (case n of None \<Rightarrow> None
                 | Some a \<Rightarrow> if m = 0 then None else Some (fmod a m))"

text \<open>\<open>function mod(n, m) { return ((n % m) + m) % m; }\<close>\<close>

definition mod_js :: "num \<Rightarrow> real \<Rightarrow> num" where
  "mod_js n m = js_rem (map_option (\<lambda>r. r + m) (js_rem n m)) m"

section \<open>Ring layout: \<open>computeTransformComponents\<close> and \<open>updateCarouselTransforms\<close>\<close>

text \<open>
  \<open>Math.max(-1, Math.min(1, screenX / VW_HALF))\<close>. \<open>VW_HALF\<close> is
  \<open>window.innerWidth * 0.5\<close>, never negative; when it is zero the quotient is
  \<open>+Infinity\<close> for a positive \<open>screenX\<close>, \<open>-Infinity\<close> for a negative one (both then
  clamped) and \<open>NaN\<close> for \<open>0 / 0\<close>; \<open>Math.min\<close> and \<open>Math.max\<close> hand a \<open>NaN\<close> on.
\<close>

definition clampNorm :: "num \<Rightarrow> real \<Rightarrow> num" where
  "clampNorm screenX vw_half =
     (case screenX of None \<Rightarrow> None
      | Some x \<Rightarrow>
          if vw_half = 0
          then (if x = 0 then None else if 0 < x then Some 1 else Some (- 1))
          else Some (max (- 1) (min 1 (x / vw_half))))"

record components =
  norm_c :: real
  absNorm :: real
  invNorm :: real
  ry :: real
  tz :: real
  scale :: real

text \<open>
  \<open>computeTransformComponents(screenX)\<close>, with the global \<open>VW_HALF\<close> as a parameter.
  \<open>None\<close> stands for the result whose six fields are all \<open>NaN\<close>. The field
  \<open>norm\<close> is written \<open>norm_c\<close>.
\<close>

definition computeTransformComponents :: "num \<Rightarrow> real \<Rightarrow> components option" where
  "computeTransformComponents screenX vw_half =
     (case clampNorm screenX vw_half of None \<Rightarrow> None
      | Some n \<Rightarrow>
          let a = \<bar>n\<bar>; i = 1 - a
          in Some \<lparr> norm_c = n, absNorm = a, invNorm = i,
                    ry = - n * MAX_ROTATION,
                    tz = i * MAX_DEPTH,
                    scale = MIN_SCALE + i * SCALE_RANGE \<rparr>)"

text \<open>
  The body of the first loop of \<open>updateCarouselTransforms\<close> for one item:
  \<open>pos = items[i].x - SCROLL_X\<close>, then the two adjustments by \<open>TRACK\<close>.
\<close>

definition wrapPos :: "real \<Rightarrow> real \<Rightarrow> real \<Rightarrow> real" where
  "wrapPos x scroll track =
     (let half = track / 2;
          pos = x - scroll;
          pos = (if pos < - half then pos + track else pos);
          pos = (if half < pos then pos - track else pos)
      in pos)"

text \<open>With a \<open>NaN\<close> offset the difference is \<open>NaN\<close> and both comparisons are false.\<close>

definition wrapPosNum :: "real \<Rightarrow> num \<Rightarrow> real \<Rightarrow> num" where
  "wrapPosNum x scroll track = map_option (\<lambda>s. wrapPos x s track) scroll"

text \<open>\<open>closestDist\<close> starts at \<open>Infinity\<close> and is a finite distance afterwards.\<close>

datatype bound = Infinity | Dist real

fun below :: "real \<Rightarrow> bound \<Rightarrow> bool" where
  "below d Infinity = True"
| "below d (Dist c) = (d < c)"

text \<open>
  The first loop of \<open>updateCarouselTransforms\<close>: \<open>i\<close> is the loop index, \<open>ps\<close> the
  positions written so far, \<open>ci\<close> and \<open>cd\<close> are \<open>closestIdx\<close> and \<open>closestDist\<close>.
  A \<open>NaN\<close> distance is below nothing.
\<close>

fun wrapLoop :: "real \<Rightarrow> num \<Rightarrow> real list \<Rightarrow> nat \<Rightarrow> num list \<Rightarrow> int \<Rightarrow> bound
                 \<Rightarrow> num list \<times> int \<times> bound" where
  "wrapLoop track scroll [] i ps ci cd = (ps, ci, cd)"
| "wrapLoop track scroll (x # xs) i ps ci cd =
     (let pos = wrapPosNum x scroll track in
      case pos of
        None \<Rightarrow> wrapLoop track scroll xs (Suc i) (ps @ [pos]) ci cd
      | Some p \<Rightarrow>
          if below \<bar>p\<bar> cd
          then wrapLoop track scroll xs (Suc i) (ps @ [pos]) (int i) (Dist \<bar>p\<bar>)
          else wrapLoop track scroll xs (Suc i) (ps @ [pos]) ci cd)"

section \<open>The carousel's state\<close>

text \<open>
  The module-level variables that the layout pass, the animation loop and the input
  handlers read and write. An item is represented by its \<open>x\<close> (the DOM element is not);
  \<open>hasBg\<close> says whether \<open>bgCtx\<close> exists. Timestamps are in milliseconds.
\<close>

record carousel =
  items :: "real list"
  positions :: "num list"
  activeIndex :: int
  isEntering :: bool
  TRACK :: real
  SCROLL_X :: num
  VW_HALF :: real
  vX :: real
  lastTime :: real
  dragging :: bool
  lastX :: real
  lastT :: real
  lastDelta :: real
  hasBg :: bool

text \<open>
  The items that \<open>createCards\<close> and \<open>measure\<close> set up: item \<open>i\<close> of \<open>n\<close> has
  \<open>x = i * STEP\<close>.
\<close>

definition itemXs :: "nat \<Rightarrow> real \<Rightarrow> real list" where
  "itemXs n step = map (\<lambda>i. real i * step) [0..<n]"

text \<open>
  \<open>setActiveGradient(idx)\<close>: the guard and the assignment to \<open>activeIndex\<close>. The colour
  transition that follows is outside this development.
\<close>

definition setActiveGradient :: "int \<Rightarrow> carousel \<Rightarrow> carousel" where
  "setActiveGradient idx s =
     (if \<not> hasBg s \<or> idx < 0 \<or> int (length (items s)) \<le> idx \<or> idx = activeIndex s then s
      else s\<lparr>activeIndex := idx\<rparr>)"

text \<open>
  The first loop of \<open>updateCarouselTransforms\<close> from its initial values
  \<open>closestIdx = -1\<close>, \<open>closestDist = Infinity\<close>.
\<close>

definition layoutPass :: "real \<Rightarrow> num \<Rightarrow> real list \<Rightarrow> num list \<times> int \<times> bound" where
  "layoutPass track scroll xs = wrapLoop track scroll xs 0 [] (- 1) Infinity"

definition closestIdx :: "real \<Rightarrow> num \<Rightarrow> real list \<Rightarrow> int" where
  "closestIdx track scroll xs = fst (snd (layoutPass track scroll xs))"

text \<open>
  \<open>updateCarouselTransforms()\<close>: the positions and the nearest index, then the change
  of the active item. The second loop writes each card's style from
  \<open>computeTransformComponents(positions[i])\<close> and changes none of these variables.
\<close>

definition updateCarouselTransforms :: "carousel \<Rightarrow> carousel" where
  "updateCarouselTransforms s =
     (case layoutPass (TRACK s) (SCROLL_X s) (items s) of
        (ps, ci, cd) \<Rightarrow>
          let s1 = s\<lparr>positions := ps\<rparr>
          in if ci \<noteq> activeIndex s1 then setActiveGradient ci s1 else s1)"

section \<open>Momentum: \<open>tick\<close> and the input handlers\<close>

text \<open>\<open>const dt = lastTime ? (t - lastTime) / 1000 : 0\<close>\<close>

definition tick_dt :: "real \<Rightarrow> carousel \<Rightarrow> real" where
  "tick_dt t s = (if lastTime s \<noteq> 0 then (t - lastTime s) / 1000 else 0)"

text \<open>\<open>if (Math.abs(vX) < 0.02) vX = 0\<close>\<close>

definition snap :: "real \<Rightarrow> real" where
  "snap v = (if \<bar>v\<bar> < 2 / 100 then 0 else v)"

text \<open>
  \<open>tick(t)\<close> without the request for the next frame. \<open>Math.pow(FRICTION, dt * 60)\<close> is
  the real power \<open>FRICTION powr (dt * 60)\<close>.
\<close>

definition tick :: "real \<Rightarrow> carousel \<Rightarrow> carousel" where
  "tick t s =
     (let dt = tick_dt t s;
          s1 = s\<lparr>lastTime := t\<rparr>;
          s2 = s1\<lparr>SCROLL_X := mod_js (map_option (\<lambda>x. x + vX s1 * dt) (SCROLL_X s1)) (TRACK s1)\<rparr>;
          decay = FRICTION powr (dt * 60);
          s3 = s2\<lparr>vX := snap (vX s2 * decay)\<rparr>
      in updateCarouselTransforms s3)"



text \<open>
  The wheel handler; \<open>deltaX\<close> and \<open>deltaY\<close> are the event's fields.
\<close>

definition wheel :: "real \<Rightarrow> real \<Rightarrow> carousel \<Rightarrow> carousel" where
  "wheel deltaX deltaY s =
     (if isEntering s then s
      else let delta = (if \<bar>deltaY\<bar> < \<bar>deltaX\<bar> then deltaX else deltaY)
           in s\<lparr>vX := vX s + delta * WHEEL_SENS * 20\<rparr>)"

text \<open>
  The pointer handlers. \<open>clientX\<close> is the event's field, \<open>now\<close> the value of
  \<open>performance.now()\<close>, \<open>onFrame\<close> whether the event's target lies in a \<open>.frame\<close>.
\<close>

definition pointerdown :: "real \<Rightarrow> real \<Rightarrow> bool \<Rightarrow> carousel \<Rightarrow> carousel" where
  "pointerdown clientX now onFrame s =
     (if isEntering s then s
      else if onFrame then s
      else s\<lparr>dragging := True, lastX := clientX, lastT := now, lastDelta := 0\<rparr>)"

definition pointermove :: "real \<Rightarrow> real \<Rightarrow> carousel \<Rightarrow> carousel" where
  "pointermove clientX now s =
     (if \<not> dragging s then s
      else let dx = clientX - lastX s;
               dt = max 1 (now - lastT s) / 1000
           in s\<lparr>SCROLL_X := mod_js (map_option (\<lambda>x. x - dx * DRAG_SENS) (SCROLL_X s)) (TRACK s),
                lastDelta := dx / dt,
                lastX := clientX,
                lastT := now\<rparr>)"

definition pointerup :: "carousel \<Rightarrow> carousel" where
  "pointerup s =
     (if \<not> dragging s then s
      else s\<lparr>dragging := False, vX := - lastDelta s * DRAG_SENS\<rparr>)"

section \<open>Palette extraction: \<open>rgbToHsl\<close>, \<open>hslToRgb\<close>, \<open>fallbackFromIndex\<close>, \<open>extractColors\<close>\<close>

text \<open>\<open>Math.round\<close>: the nearest integer, a tie going up.\<close>

definition js_round :: "real \<Rightarrow> int" where
  "js_round x = \<lfloor>x + 1 / 2\<rfloor>"

text \<open>
  \<open>rgbToHsl(r, g, b)\<close>, returning \<open>[h * 360, s, l]\<close>. The \<open>switch (max)\<close> takes the first
  of \<open>r\<close>, \<open>g\<close> that equals \<open>max\<close>, and the blue branch otherwise.
\<close>

definition rgbToHsl :: "real \<Rightarrow> real \<Rightarrow> real \<Rightarrow> real \<times> real \<times> real" where
  "rgbToHsl r0 g0 b0 =
     (let r = r0 / 255; g = g0 / 255; b = b0 / 255;
          mx = max (max r g) b;
          mn = min (min r g) b;
          l = (mx + mn) / 2
      in if mx = mn then (0 * 360, 0, l)
         else
           let d = mx - mn;
               s = (if 1 / 2 < l then d / (2 - mx - mn) else d / (mx + mn));
               h = (if mx = r then (g - b) / d + (if g < b then 6 else 0)
                    else if mx = g then (b - r) / d + 2
                    else (r - g) / d + 4)
           in (h / 6 * 360, s, l))"

text \<open>The local function \<open>hue2rgb(p, q, t)\<close> of \<open>hslToRgb\<close>.\<close>

definition hue2rgb :: "real \<Rightarrow> real \<Rightarrow> real \<Rightarrow> real" where
  "hue2rgb p q t0 =
     (let t = (if t0 < 0 then t0 + 1 else t0);
          t = (if 1 < t then t - 1 else t)
      in if t < 1 / 6 then p + (q - p) * 6 * t
         else if t < 1 / 2 then q
         else if t < 2 / 3 then p + (q - p) * (2 / 3 - t) * 6
         else p)"

type_synonym rgb = "int \<times> int \<times> int"

text \<open>\<open>hslToRgb(h, s, l)\<close>: the hue is first brought into \<open>[0, 360)\<close> and divided by 360.\<close>

definition hslToRgb :: "real \<Rightarrow> real \<Rightarrow> real \<Rightarrow> rgb" where
  "hslToRgb h0 s l =
     (let h = fmod (fmod h0 360 + 360) 360 / 360
      in if s = 0 then (js_round (l * 255), js_round (l * 255), js_round (l * 255))
         else
           let q = (if l < 1 / 2 then l * (1 + s) else l + s - l * s);
               p = 2 * l - q
           in (js_round (hue2rgb p q (h + 1 / 3) * 255),
               js_round (hue2rgb p q h * 255),
               js_round (hue2rgb p q (h - 1 / 3) * 255)))"

text \<open>The pair \<open>{ c1, c2 }\<close> that the extractor returns.\<close>

record palette =
  c1 :: rgb
  c2 :: rgb

text \<open>\<open>fallbackFromIndex(idx)\<close>, with its hue \<open>(idx * 37) % 360\<close> under a name.\<close>

definition fallbackHue :: "nat \<Rightarrow> nat" where
  "fallbackHue idx = (idx * 37) mod 360"

definition fallbackFromIndex :: "nat \<Rightarrow> palette" where
  "fallbackFromIndex idx =
     (let h = real (fallbackHue idx); s = 65 / 100
      in \<lparr> c1 = hslToRgb h s (52 / 100), c2 = hslToRgb h s (72 / 100) \<rparr>)"

text \<open>
  The pixel buffer \<open>ctx.getImageData(...).data\<close> is a \<open>Uint8ClampedArray\<close> of four bytes
  per pixel; the loop reads it four at a time, here one \<open>pixel\<close> at a time.
\<close>

record pixel =
  red :: "8 word"
  green :: "8 word"
  blue :: "8 word"
  alpha :: "8 word"

text \<open>
  What the \<open>try\<close> block gets to work on: the pixel buffer of the thumbnail, or nothing,
  when reading \<open>img\<close>, creating the canvas, drawing or reading back throws (control then
  passes to the \<open>catch\<close>). The downscaling itself is the browser's.
\<close>

datatype canvas_read = Unreadable | ImageData "pixel list"

definition H_BINS :: nat where "H_BINS = 36"
definition S_BINS :: nat where "S_BINS = 5"
definition SIZE :: nat where "SIZE = H_BINS * S_BINS"

text \<open>The four accumulator arrays, each of \<open>SIZE\<close> zeros at first.\<close>

record hist =
  wSum :: "real list"
  rSum :: "real list"
  gSum :: "real list"
  bSum :: "real list"

definition emptyHist :: hist where
  "emptyHist = \<lparr> wSum = replicate SIZE 0, rSum = replicate SIZE 0,
                 gSum = replicate SIZE 0, bSum = replicate SIZE 0 \<rparr>"

text \<open>The bin index \<open>hi * S_BINS + si\<close> of a hue and a saturation.\<close>

definition binIndex :: "real \<Rightarrow> real \<Rightarrow> nat" where
  "binIndex h s =
     (let hi = max 0 (min (int H_BINS - 1) \<lfloor>h / 360 * real H_BINS\<rfloor>);
          si = max 0 (min (int S_BINS - 1) \<lfloor>s * real S_BINS\<rfloor>)
      in nat (hi * int S_BINS + si))"

text \<open>The body of the pixel loop.\<close>

definition addPixel :: "pixel \<Rightarrow> hist \<Rightarrow> hist" where
  "addPixel px hst =
     (let a = real (unat (alpha px)) / 255
      in if a < 5 / 100 then hst
         else
           let r = real (unat (red px));
               g = real (unat (green px));
               b = real (unat (blue px))
           in case rgbToHsl r g b of
                (h, s, l) \<Rightarrow>
                  if l < 1 / 10 \<or> 92 / 100 < l \<or> s < 8 / 100 then hst
                  else
                    let w = a * (s * s) * (1 - \<bar>l - 1 / 2\<bar> * (6 / 10));
                        bidx = binIndex h s
                    in hst\<lparr> wSum := (wSum hst)[bidx := wSum hst ! bidx + w],
                            rSum := (rSum hst)[bidx := rSum hst ! bidx + r * w],
                            gSum := (gSum hst)[bidx := gSum hst ! bidx + g * w],
                            bSum := (bSum hst)[bidx := bSum hst ! bidx + b * w] \<rparr>)"

text \<open>
  The parts of the loop body by name, to speak about the pixels that a bin holds:
  whether a pixel gets past both \<open>continue\<close> tests, its weight \<open>w\<close>, its bin \<open>bidx\<close>.
\<close>

definition pixelHsl :: "pixel \<Rightarrow> real \<times> real \<times> real" where
  "pixelHsl px = rgbToHsl (real (unat (red px))) (real (unat (green px))) (real (unat (blue px)))"

definition counted :: "pixel \<Rightarrow> bool" where
  "counted px =
     (case pixelHsl px of
        (h, s, l) \<Rightarrow> \<not> real (unat (alpha px)) / 255 < 5 / 100 \<and>
                     \<not> (l < 1 / 10 \<or> 92 / 100 < l \<or> s < 8 / 100))"

definition pixelWeight :: "pixel \<Rightarrow> real" where
  "pixelWeight px =
     (case pixelHsl px of
        (h, s, l) \<Rightarrow> real (unat (alpha px)) / 255 * (s * s) * (1 - \<bar>l - 1 / 2\<bar> * (6 / 10)))"

definition pixelBin :: "pixel \<Rightarrow> nat" where
  "pixelBin px = (case pixelHsl px of (h, s, l) \<Rightarrow> binIndex h s)"

text \<open>The pixels of a buffer that are counted in bin \<open>b\<close>.\<close>

definition binPixels :: "pixel list \<Rightarrow> nat \<Rightarrow> pixel list" where
  "binPixels data b = filter (\<lambda>px. counted px \<and> pixelBin px = b) data"

definition histogram :: "pixel list \<Rightarrow> hist" where
  "histogram data = fold addPixel data emptyHist"

text \<open>
  The search for the primary bin, \<open>for (let i = 0; i < SIZE; i++)\<close> over \<open>wSum\<close>: \<open>ws\<close> is
  the part of the array from index \<open>i\<close> on.
\<close>

fun primaryLoop :: "real list \<Rightarrow> nat \<Rightarrow> int \<Rightarrow> real \<Rightarrow> int \<times> real" where
  "primaryLoop [] i pIdx pW = (pIdx, pW)"
| "primaryLoop (w # ws) i pIdx pW =
     (if pW < w then primaryLoop ws (Suc i) (int i) w
      else primaryLoop ws (Suc i) pIdx pW)"

definition findPrimary :: "hist \<Rightarrow> int \<times> real" where
  "findPrimary hst = primaryLoop (wSum hst) 0 (- 1) 0"

text \<open>\<open>Math.floor(i / S_BINS) * (360 / H_BINS)\<close>, the hue at which bin \<open>i\<close> starts.\<close>

definition binHue :: "nat \<Rightarrow> real" where
  "binHue i = real (i div S_BINS) * (360 / real H_BINS)"

text \<open>The shortest distance on the colour wheel, as the secondary search computes it.\<close>

definition hueDist :: "real \<Rightarrow> real \<Rightarrow> real" where
  "hueDist h pHue = (let dh = \<bar>h - pHue\<bar> in min dh (360 - dh))"

fun secondaryLoop :: "real \<Rightarrow> real list \<Rightarrow> nat \<Rightarrow> int \<Rightarrow> real \<Rightarrow> int \<times> real" where
  "secondaryLoop pHue [] i sIdx sW = (sIdx, sW)"
| "secondaryLoop pHue (w # ws) i sIdx sW =
     (if w \<le> 0 then secondaryLoop pHue ws (Suc i) sIdx sW
      else if 25 \<le> hueDist (binHue i) pHue \<and> sW < w
           then secondaryLoop pHue ws (Suc i) (int i) w
           else secondaryLoop pHue ws (Suc i) sIdx sW)"

definition findSecondary :: "hist \<Rightarrow> real \<Rightarrow> int \<times> real" where
  "findSecondary hst pHue = secondaryLoop pHue (wSum hst) 0 (- 1) 0"

text \<open>The local function \<open>avgRGB(idx)\<close>; \<open>wSum[idx] || 1e-6\<close> replaces a zero weight.\<close>

definition avgRGB :: "hist \<Rightarrow> nat \<Rightarrow> rgb" where
  "avgRGB hst idx =
     (let w = (if wSum hst ! idx = 0 then 1 / 1000000 else wSum hst ! idx)
      in (js_round (rSum hst ! idx / w), js_round (gSum hst ! idx / w),
          js_round (bSum hst ! idx / w)))"

text \<open>\<open>Math.max(0.45, Math.min(1, s * k))\<close>, with \<open>k\<close> 1.15 or 1.05.\<close>

definition boost :: "real \<Rightarrow> real \<Rightarrow> real" where
  "boost k s = max (45 / 100) (min 1 (s * k))"

text \<open>
  \<open>extractColors(img, idx)\<close>. The \<open>catch\<close> returns \<open>fallbackFromIndex(idx)\<close>; nothing
  after the pixel buffer has been read can throw.
\<close>

definition extractColors :: "canvas_read \<Rightarrow> nat \<Rightarrow> palette" where
  "extractColors img idx =
     (case img of
        Unreadable \<Rightarrow> fallbackFromIndex idx
      | ImageData data \<Rightarrow>
          let hst = histogram data
          in case findPrimary hst of
               (pIdx, pW) \<Rightarrow>
                 if pIdx < 0 \<or> pW \<le> 0 then fallbackFromIndex idx
                 else
                   let pHue = binHue (nat pIdx)
                   in case findSecondary hst pHue of
                        (sIdx, sW) \<Rightarrow>
                          (case avgRGB hst (nat pIdx) of
                             (pr, pg, pb) \<Rightarrow>
                               (case rgbToHsl (real_of_int pr) (real_of_int pg) (real_of_int pb) of
                                  (h1, s1, l1) \<Rightarrow>
                                    let s1 = boost (115 / 100) s1;
                                        p1 = hslToRgb h1 s1 (1 / 2);
                                        p2 =
                                          (if 0 \<le> sIdx \<and> pW * (6 / 10) \<le> sW
                                           then
                                             case avgRGB hst (nat sIdx) of
                                               (sr, sg, sb) \<Rightarrow>
                                                 (case rgbToHsl (real_of_int sr) (real_of_int sg)
                                                         (real_of_int sb) of
                                                    (h2, s2, l2) \<Rightarrow>
                                                      hslToRgb h2 (boost (105 / 100) s2) (72 / 100))
                                           else hslToRgb h1 s1 (72 / 100))
                                    in \<lparr> c1 = p1, c2 = p2 \<rparr>)))"

section \<open>Auxiliary predicates and example inputs\<close>


subsection \<open>States and frame clocks used as examples\<close>

text \<open>
  The values the module's variables are declared with; \<open>w\<close> is \<open>window.innerWidth\<close> and
  \<open>bg\<close> whether the background canvas gave a context. With an empty \<open>IMAGES\<close> list
  \<open>createCards\<close> adds nothing and \<open>measure\<close> returns at once, so this is also the state in
  which the first frame then runs.
\<close>

definition initialState :: "real \<Rightarrow> bool \<Rightarrow> carousel" where
  "initialState w bg =
     \<lparr> items = [], positions = [], activeIndex = - 1, isEntering = True,
       TRACK = 0, SCROLL_X = Some 0, VW_HALF = w * (1 / 2), vX = 0, lastTime = 0,
       dragging = False, lastX = 0, lastT = 0, lastDelta = 0, hasBg = bg \<rparr>"

text \<open>
  Ten cards of width 300 (pitch 328, track 3280) in a window 1280 wide, after the entry
  animation, offset 0, moving at velocity \<open>v\<close>, the last frame at 1000 ms.
\<close>

definition coasting :: "real \<Rightarrow> carousel" where
  "coasting v =
     \<lparr> items = itemXs 10 328, positions = map (\<lambda>x. Some (wrapPos x 0 3280)) (itemXs 10 328),
       activeIndex = 0, isEntering = False,
       TRACK = 3280, SCROLL_X = Some 0, VW_HALF = 640, vX = v, lastTime = 1000,
       dragging = False, lastX = 0, lastT = 0, lastDelta = 0, hasBg = True \<rparr>"







definition clearPixel :: pixel where
  "clearPixel = \<lparr> red = 0, green = 0, blue = 0, alpha = 0 \<rparr>"


text \<open>
  The \<open>coasting\<close> state at rest after a pointer-down at \<open>clientX = 500\<close>, at 2000 ms.
\<close>

definition dragged :: carousel where
  "dragged = pointerdown 500 2000 False (coasting 0)"

section \<open>Properties of the ring layout\<close>


lemma wrapLoop_positions:
  "fst (wrapLoop track scroll xs i ps ci cd) = ps @ map (\<lambda>x. wrapPosNum x scroll track) xs"
  by (induction xs arbitrary: i ps ci cd) (auto simp: Let_def split: option.splits)

lemma layoutPass_positions:
  "fst (layoutPass track scroll xs) = map (\<lambda>x. wrapPosNum x scroll track) xs"
  by (simp add: layoutPass_def wrapLoop_positions)

text \<open>
  The invariant of the first loop, for a finite offset. \<open>D\<close> lists the absolute wrapped
  positions of the items still to visit. Either none of them is below the running
  \<open>closestDist\<close> and nothing changes, or the loop ends on the first of the items of
  least distance, which is below the \<open>closestDist\<close> it started from.
\<close>

lemma wrapLoop_nearest:
  fixes D :: "real list"
  assumes "wrapLoop track (Some s) xs i ps ci cd = (ps', ci', cd')"
  assumes D: "D = map (\<lambda>x. \<bar>wrapPos x s track\<bar>) xs"
  shows "(ci' = ci \<and> cd' = cd \<and> (\<forall>k<length xs. \<not> below (D ! k) cd)) \<or>
         (\<exists>k<length xs. ci' = int (i + k) \<and> cd' = Dist (D ! k) \<and> below (D ! k) cd \<and>
             (\<forall>j<length xs. D ! k \<le> D ! j) \<and> (\<forall>j<k. D ! k < D ! j))"
  using assms
proof (induction xs arbitrary: i ps ci cd D)
  case Nil
  then show ?case by simp
next
  case (Cons x xs)
  define d0 where "d0 = \<bar>wrapPos x s track\<bar>"
  define D' where "D' = map (\<lambda>x. \<bar>wrapPos x s track\<bar>) xs"
  have DD: "D = d0 # D'" using Cons.prems(2) by (simp add: d0_def D'_def)
  show ?case
  proof (cases "below d0 cd")
    case True
    then have rec: "wrapLoop track (Some s) xs (Suc i) (ps @ [Some (wrapPos x s track)])
                      (int i) (Dist d0) = (ps', ci', cd')"
      using Cons.prems(1) by (simp add: wrapPosNum_def d0_def)
    from Cons.IH[OF rec D'_def]
    show ?thesis
    proof
      assume a: "ci' = int i \<and> cd' = Dist d0 \<and> (\<forall>k<length xs. \<not> below (D' ! k) (Dist d0))"
      have "0 < length (x # xs) \<and> ci' = int (i + 0) \<and> cd' = Dist (D ! 0) \<and> below (D ! 0) cd \<and>
             (\<forall>j<length (x # xs). D ! 0 \<le> D ! j) \<and> (\<forall>j<0. D ! 0 < D ! j)"
        using a True by (auto simp: DD nth_Cons' not_less)
      then show ?thesis by blast
    next
      assume "\<exists>k<length xs. ci' = int (Suc i + k) \<and> cd' = Dist (D' ! k) \<and>
                below (D' ! k) (Dist d0) \<and>
                (\<forall>j<length xs. D' ! k \<le> D' ! j) \<and> (\<forall>j<k. D' ! k < D' ! j)"
      then obtain k where k: "k < length xs" "ci' = int (Suc i + k)" "cd' = Dist (D' ! k)"
        "D' ! k < d0" "\<forall>j<length xs. D' ! k \<le> D' ! j" "\<forall>j<k. D' ! k < D' ! j"
        by auto
      have bl: "below (D' ! k) cd" using True k(4) by (cases cd) auto
      have "Suc k < length (x # xs) \<and> ci' = int (i + Suc k) \<and> cd' = Dist (D ! Suc k) \<and>
             below (D ! Suc k) cd \<and>
             (\<forall>j<length (x # xs). D ! Suc k \<le> D ! j) \<and> (\<forall>j<Suc k. D ! Suc k < D ! j)"
        using k bl by (auto simp: DD nth_Cons' less_Suc_eq_0_disj)
      then show ?thesis by blast
    qed
  next
    case False
    then have rec: "wrapLoop track (Some s) xs (Suc i) (ps @ [Some (wrapPos x s track)])
                      ci cd = (ps', ci', cd')"
      using Cons.prems(1) by (simp add: wrapPosNum_def d0_def)
    from False obtain c where c: "cd = Dist c" "c \<le> d0" by (cases cd) auto
    from Cons.IH[OF rec D'_def]
    show ?thesis
    proof
      assume a: "ci' = ci \<and> cd' = cd \<and> (\<forall>k<length xs. \<not> below (D' ! k) cd)"
      then have "ci' = ci \<and> cd' = cd \<and> (\<forall>k<length (x # xs). \<not> below (D ! k) cd)"
        using False by (auto simp: DD nth_Cons')
      then show ?thesis by blast
    next
      assume "\<exists>k<length xs. ci' = int (Suc i + k) \<and> cd' = Dist (D' ! k) \<and> below (D' ! k) cd \<and>
                (\<forall>j<length xs. D' ! k \<le> D' ! j) \<and> (\<forall>j<k. D' ! k < D' ! j)"
      then obtain k where k: "k < length xs" "ci' = int (Suc i + k)" "cd' = Dist (D' ! k)"
        "below (D' ! k) cd" "\<forall>j<length xs. D' ! k \<le> D' ! j" "\<forall>j<k. D' ! k < D' ! j"
        by auto
      have lt: "D' ! k < d0" using k(4) c by auto
      have "Suc k < length (x # xs) \<and> ci' = int (i + Suc k) \<and> cd' = Dist (D ! Suc k) \<and>
             below (D ! Suc k) cd \<and>
             (\<forall>j<length (x # xs). D ! Suc k \<le> D ! j) \<and> (\<forall>j<Suc k. D ! Suc k < D ! j)"
        using k lt by (auto simp: DD nth_Cons' less_Suc_eq_0_disj)
      then show ?thesis by blast
    qed
  qed
qed

text \<open>From the loop's initial values, over at least one item and a finite offset.\<close>

lemma closestIdx_least_minimiser:
  assumes "xs \<noteq> []"
  shows "\<exists>k<length xs. closestIdx track (Some s) xs = int k \<and>
           (\<forall>j<length xs. \<bar>wrapPos (xs ! k) s track\<bar> \<le> \<bar>wrapPos (xs ! j) s track\<bar>) \<and>
           (\<forall>j<k. \<bar>wrapPos (xs ! k) s track\<bar> < \<bar>wrapPos (xs ! j) s track\<bar>)"
proof -
  define D where "D = map (\<lambda>x. \<bar>wrapPos x s track\<bar>) xs"
  obtain ps' ci' cd' where r: "wrapLoop track (Some s) xs 0 [] (- 1) Infinity = (ps', ci', cd')"
    by (metis prod_cases3)
  have nth: "\<And>j. j < length xs \<Longrightarrow> D ! j = \<bar>wrapPos (xs ! j) s track\<bar>"
    by (simp add: D_def)
  have ci: "closestIdx track (Some s) xs = ci'"
    by (simp add: closestIdx_def layoutPass_def r)
  from wrapLoop_nearest[OF r D_def] assms
  obtain k where k: "k < length xs" "ci' = int (0 + k)" "\<forall>j<length xs. D ! k \<le> D ! j"
    "\<forall>j<k. D ! k < D ! j"
    by auto
  have "k < length xs \<and> closestIdx track (Some s) xs = int k \<and>
           (\<forall>j<length xs. \<bar>wrapPos (xs ! k) s track\<bar> \<le> \<bar>wrapPos (xs ! j) s track\<bar>) \<and>
           (\<forall>j<k. \<bar>wrapPos (xs ! k) s track\<bar> < \<bar>wrapPos (xs ! j) s track\<bar>)"
    using k ci by (simp add: nth)
  then show ?thesis by blast
qed

text \<open>Ten items at a pitch of 328 pixels.\<close>

lemma itemXs_10_328:
  "itemXs 10 328 = [0, 328, 656, 984, 1312, 1640, 1968, 2296, 2624, 2952]"
  by (simp add: itemXs_def upt_rec)




text \<open>
  Claim C2: the nearest index that the layout pass reports is the lowest index among
  the items of least absolute wrapped position. Whenever an item \<open>j\<close> attains the
  minimum, the reported index is an item at the same distance and is not above \<open>j\<close>.
\<close>

theorem nearest_index_lowest_on_tie:
  assumes "j < length xs"
    and "\<forall>k<length xs. \<bar>wrapPos (xs ! j) s track\<bar> \<le> \<bar>wrapPos (xs ! k) s track\<bar>"
  shows "\<exists>i. closestIdx track (Some s) xs = int i \<and> i \<le> j \<and>
           \<bar>wrapPos (xs ! i) s track\<bar> = \<bar>wrapPos (xs ! j) s track\<bar>"
proof -
  from assms(1) have "xs \<noteq> []" by auto
  from closestIdx_least_minimiser[OF this, of track s]
  obtain k where k: "k < length xs" "closestIdx track (Some s) xs = int k"
    "\<forall>j<length xs. \<bar>wrapPos (xs ! k) s track\<bar> \<le> \<bar>wrapPos (xs ! j) s track\<bar>"
    "\<forall>j<k. \<bar>wrapPos (xs ! k) s track\<bar> < \<bar>wrapPos (xs ! j) s track\<bar>"
    by blast
  have eq: "\<bar>wrapPos (xs ! k) s track\<bar> = \<bar>wrapPos (xs ! j) s track\<bar>"
    using k(1,3) assms by (meson order_antisym)
  have "k \<le> j"
  proof (rule ccontr)
    assume "\<not> k \<le> j"
    then have "j < k" by simp
    with k(4) have "\<bar>wrapPos (xs ! k) s track\<bar> < \<bar>wrapPos (xs ! j) s track\<bar>" by blast
    with eq show False by simp
  qed
  with k(2) eq show ?thesis by blast
qed

text \<open>
  At offset 164, half a pitch, items 0 and 1 are both 164 away; item 1 attains the
  minimum and the index reported is 0.
\<close>

theorem nearest_index_lowest_on_tie_witness:
  "\<bar>wrapPos (itemXs 10 328 ! 0) 164 3280\<bar> = 164 \<and>
   \<bar>wrapPos (itemXs 10 328 ! 1) 164 3280\<bar> = 164 \<and>
   closestIdx 3280 (Some 164) (itemXs 10 328) = 0"
proof -
  have len: "length (itemXs 10 328) = 10" by (simp add: itemXs_10_328)
  have one: "\<bar>wrapPos (itemXs 10 328 ! 1) 164 3280\<bar> = 164"
    by (simp add: itemXs_10_328 wrapPos_def Let_def)
  have m: "\<forall>x\<in>set (itemXs 10 328). 164 \<le> \<bar>wrapPos x 164 3280\<bar>"
    by (simp add: itemXs_10_328 wrapPos_def Let_def)
  have min1: "\<forall>k<length (itemXs 10 328).
      \<bar>wrapPos (itemXs 10 328 ! 1) 164 3280\<bar> \<le> \<bar>wrapPos (itemXs 10 328 ! k) 164 3280\<bar>"
    unfolding one using m nth_mem by blast
  have "1 < length (itemXs 10 328)" by (simp add: len)
  from nearest_index_lowest_on_tie[OF this min1]
  obtain i where i: "closestIdx 3280 (Some 164) (itemXs 10 328) = int i" "i \<le> 1" by blast
  have i01: "i = 0 \<or> i = 1" using i(2) by linarith
  have c: "closestIdx 3280 (Some 164) (itemXs 10 328) = 0"
    by (simp add: closestIdx_def layoutPass_def itemXs_10_328 wrapPosNum_def wrapPos_def Let_def)
  show ?thesis using c i01
    by (simp add: itemXs_10_328 wrapPos_def Let_def)
qed

text \<open>The normalised position, when it is a number, lies in \<open>[-1, 1]\<close>.\<close>

lemma clampNorm_range:
  assumes "clampNorm (Some x) vw = Some n"
  shows "- 1 \<le> n \<and> n \<le> 1"
  using assms by (auto simp: clampNorm_def split: if_splits)

text \<open>
  Claim C10: unless \<open>screenX / VW_HALF\<close> is \<open>NaN\<close> (that is \<open>0 / 0\<close>), the components
  exist and the rotation lies in \<open>[-28, 28]\<close>, the depth in \<open>[0, 140]\<close> and the scale in
  \<open>[0.92, 1.02]\<close>.
\<close>

theorem transform_components_bounded:
  assumes "\<not> (screenX = 0 \<and> vw_half = 0)"
  shows "\<exists>c. computeTransformComponents (Some screenX) vw_half = Some c \<and>
           - 28 \<le> ry c \<and> ry c \<le> 28 \<and>
           0 \<le> tz c \<and> tz c \<le> 140 \<and>
           92 / 100 \<le> scale c \<and> scale c \<le> 102 / 100"
proof -
  from assms have "\<exists>n. clampNorm (Some screenX) vw_half = Some n"
    by (simp add: clampNorm_def)
  then obtain n where n: "clampNorm (Some screenX) vw_half = Some n" ..
  from clampNorm_range[OF n] have r: "- 1 \<le> n" "n \<le> 1" by simp_all
  then have a: "0 \<le> 1 - \<bar>n\<bar>" "1 - \<bar>n\<bar> \<le> 1" by simp_all
  have "- 28 \<le> - n * MAX_ROTATION \<and> - n * MAX_ROTATION \<le> 28"
    using r by (simp add: MAX_ROTATION_def)
  moreover have "0 \<le> (1 - \<bar>n\<bar>) * MAX_DEPTH \<and> (1 - \<bar>n\<bar>) * MAX_DEPTH \<le> 140"
    using a by (simp add: MAX_DEPTH_def)
  moreover have "92 / 100 \<le> MIN_SCALE + (1 - \<bar>n\<bar>) * SCALE_RANGE \<and>
                 MIN_SCALE + (1 - \<bar>n\<bar>) * SCALE_RANGE \<le> 102 / 100"
    using a by (simp add: MIN_SCALE_def SCALE_RANGE_def)
  ultimately show ?thesis
    by (simp add: computeTransformComponents_def n Let_def)
qed

theorem transform_components_bounded_witness:
  "\<not> ((492 :: real) = 0 \<and> (640 :: real) = 0) \<and>
   (\<exists>c. computeTransformComponents (Some 492) 640 = Some c \<and>
           - 28 \<le> ry c \<and> ry c \<le> 28 \<and> 0 \<le> tz c \<and> tz c \<le> 140 \<and>
           92 / 100 \<le> scale c \<and> scale c \<le> 102 / 100)"
  using transform_components_bounded[of 492 640] by simp

section \<open>Properties of the momentum controller\<close>

text \<open>The remainder has the sign of the dividend and is smaller than the divisor.\<close>

lemma fmod_range:
  assumes "0 < m"
  shows "(0 \<le> n \<longrightarrow> 0 \<le> fmod n m) \<and> - m < fmod n m \<and> fmod n m < m"
proof -
  define q where "q = n / m"
  have n: "n = q * m" using assms by (simp add: q_def)
  have f: "fmod n m = m * (q - of_int (trunc q))"
    by (simp add: fmod_def n algebra_simps flip: q_def)
  show ?thesis
  proof (cases "0 \<le> q")
    case True
    then have "0 \<le> q - of_int (trunc q)" "q - of_int (trunc q) < 1"
      by (simp_all add: trunc_def) linarith+
    then have "0 \<le> m * (q - of_int (trunc q))" "m * (q - of_int (trunc q)) < m * 1"
      using assms by (simp_all del: mult_1_right)
    then show ?thesis using assms by (simp add: f)
  next
    case False
    then have qn: "q < 0" by simp
    then have nn: "n < 0" using assms by (simp add: n mult_neg_pos)
    from False have "q - of_int (trunc q) \<le> 0" "- 1 < q - of_int (trunc q)"
      by (simp_all add: trunc_def) linarith+
    then have d: "q - of_int (trunc q) \<le> 0" "0 < 1 + (q - of_int (trunc q))"
      by simp_all
    have le0: "m * (q - of_int (trunc q)) \<le> 0"
      using assms d(1) by (simp add: mult_le_0_iff)
    have "0 < m * (1 + (q - of_int (trunc q)))"
      using assms d(2) by (rule mult_pos_pos)
    then have gt: "- m < m * (q - of_int (trunc q))"
      by (simp add: algebra_simps)
    show ?thesis unfolding f using assms nn le0 gt
      by (intro conjI impI) linarith+
  qed
qed

lemma fmod_shift: "\<exists>k::int. fmod n m = n + of_int k * m"
proof -
  have "fmod n m = n + of_int (- trunc (n / m)) * m" by (simp add: fmod_def)
  then show ?thesis by blast
qed

text \<open>
  For a divisor \<open>m > 0\<close>, \<open>mod\<close> gives the representative in \<open>[0, m)\<close>: it differs
  from its argument by a whole number of \<open>m\<close>.
\<close>

lemma mod_js_range:
  assumes "0 < m"
  shows "\<exists>r. mod_js (Some n) m = Some r \<and> 0 \<le> r \<and> r < m \<and> (\<exists>k::int. r = n + of_int k * m)"
proof -
  let ?a = "fmod n m"
  let ?r = "fmod (?a + m) m"
  have eq: "mod_js (Some n) m = Some ?r" using assms by (simp add: mod_js_def js_rem_def)
  have "0 \<le> ?a + m" using fmod_range[OF assms, of n] by simp
  then have r: "0 \<le> ?r" "?r < m" using fmod_range[OF assms, of "?a + m"] by simp_all
  obtain k1 :: int where k1: "?a = n + of_int k1 * m" using fmod_shift by blast
  obtain k2 :: int where k2: "?r = (?a + m) + of_int k2 * m" using fmod_shift by blast
  have "?r = n + of_int (k1 + 1 + k2) * m" using k1 k2 by (simp add: algebra_simps)
  then have "\<exists>k::int. ?r = n + of_int k * m" by blast
  with eq r show ?thesis by blast
qed

lemma mod_js_zero: "mod_js n 0 = None"
  by (simp add: mod_js_def js_rem_def split: option.splits)

lemma mod_js_NaN: "mod_js None m = None"
  by (simp add: mod_js_def js_rem_def)

text \<open>What the layout pass and a tick leave alone, and what they write.\<close>

lemma updateCarouselTransforms_frame:
  "vX (updateCarouselTransforms s) = vX s"
  "lastTime (updateCarouselTransforms s) = lastTime s"
  "TRACK (updateCarouselTransforms s) = TRACK s"
  "SCROLL_X (updateCarouselTransforms s) = SCROLL_X s"
  "items (updateCarouselTransforms s) = items s"
  "positions (updateCarouselTransforms s) = fst (layoutPass (TRACK s) (SCROLL_X s) (items s))"
  by (simp_all add: updateCarouselTransforms_def setActiveGradient_def Let_def split: prod.splits)

lemma tick_fields:
  "vX (tick t s) = snap (vX s * FRICTION powr (tick_dt t s * 60))"
  "lastTime (tick t s) = t"
  "TRACK (tick t s) = TRACK s"
  "items (tick t s) = items s"
  "SCROLL_X (tick t s) = mod_js (map_option (\<lambda>x. x + vX s * tick_dt t s) (SCROLL_X s)) (TRACK s)"
  by (simp_all add: tick_def Let_def updateCarouselTransforms_frame)

subsection \<open>The velocity of a run in closed form\<close>


















text \<open>
  Claim C4: while dragging, a pointer-move leaves the velocity as it is and sets the
  offset to \<open>mod(SCROLL_X - dx * DRAG_SENS, TRACK)\<close>, which for a measured track and a
  finite offset is the point of \<open>[0, TRACK)\<close> that differs from \<open>SCROLL_X - dx * DRAG_SENS\<close>
  by a whole number of tracks; it records \<open>dx / dt\<close>; pointer-up sets the velocity to
  \<open>-lastDelta * DRAG_SENS\<close>; pointer-down never changes the velocity.
\<close>

theorem drag_moves_offset_not_velocity:
  assumes "dragging s"
  shows "vX (pointermove clientX now s) = vX s \<and>
         SCROLL_X (pointermove clientX now s) =
           mod_js (map_option (\<lambda>x. x - (clientX - lastX s) * DRAG_SENS) (SCROLL_X s)) (TRACK s) \<and>
         (\<forall>off. SCROLL_X s = Some off \<and> 0 < TRACK s \<longrightarrow>
            (\<exists>r. SCROLL_X (pointermove clientX now s) = Some r \<and> 0 \<le> r \<and> r < TRACK s \<and>
               (\<exists>k::int. r = off - (clientX - lastX s) * DRAG_SENS + of_int k * TRACK s))) \<and>
         lastDelta (pointermove clientX now s) =
           (clientX - lastX s) / (max 1 (now - lastT s) / 1000) \<and>
         vX (pointerup s) = - lastDelta s * DRAG_SENS \<and>
         (\<forall>cx t f s'. vX (pointerdown cx t f s') = vX s')"
proof -
  have mv: "pointermove clientX now s =
      s\<lparr>SCROLL_X := mod_js (map_option (\<lambda>x. x - (clientX - lastX s) * DRAG_SENS) (SCROLL_X s)) (TRACK s),
        lastDelta := (clientX - lastX s) / (max 1 (now - lastT s) / 1000),
        lastX := clientX, lastT := now\<rparr>"
    using assms by (simp add: pointermove_def Let_def)
  have wrap: "\<forall>off. SCROLL_X s = Some off \<and> 0 < TRACK s \<longrightarrow>
            (\<exists>r. SCROLL_X (pointermove clientX now s) = Some r \<and> 0 \<le> r \<and> r < TRACK s \<and>
               (\<exists>k::int. r = off - (clientX - lastX s) * DRAG_SENS + of_int k * TRACK s))"
  proof (intro allI impI)
    fix off assume a: "SCROLL_X s = Some off \<and> 0 < TRACK s"
    then have "0 < TRACK s" by simp
    from mod_js_range[OF this, of "off - (clientX - lastX s) * DRAG_SENS"] a
    show "\<exists>r. SCROLL_X (pointermove clientX now s) = Some r \<and> 0 \<le> r \<and> r < TRACK s \<and>
               (\<exists>k::int. r = off - (clientX - lastX s) * DRAG_SENS + of_int k * TRACK s)"
      by (simp add: mv)
  qed
  have up: "vX (pointerup s) = - lastDelta s * DRAG_SENS"
    using assms by (simp add: pointerup_def)
  have down: "\<forall>cx t f s'. vX (pointerdown cx t f s') = vX s'"
    by (simp add: pointerdown_def)
  show ?thesis using wrap up down by (simp add: mv)
qed

text \<open>
  Dragging left by 100 pixels within 16 ms from offset 0 on a track of 3280: the offset
  is 100 at once, the velocity is unchanged until the release sets it to 6250.
\<close>

theorem drag_moves_offset_not_velocity_witness:
  "dragging dragged \<and>
   vX (pointermove 400 2016 dragged) = vX dragged \<and>
   SCROLL_X dragged = Some 0 \<and>
   SCROLL_X (pointermove 400 2016 dragged) = Some 100 \<and>
   vX (pointerup (pointermove 400 2016 dragged)) = 6250"
proof -
  have d: "dragging dragged" by (simp add: dragged_def pointerdown_def coasting_def)
  have f: "SCROLL_X dragged = Some 0" "TRACK dragged = 3280" "lastX dragged = 500" "lastT dragged = 2000"
    by (simp_all add: dragged_def pointerdown_def coasting_def)
  note T = drag_moves_offset_not_velocity[OF d, of 400 2016]
  have m: "mod_js (Some 100) 3280 = Some 100"
    by (simp add: mod_js_def js_rem_def fmod_def trunc_def)
  from T have "SCROLL_X (pointermove 400 2016 dragged) = Some 100"
    by (simp add: f DRAG_SENS_def m)
  moreover from T have "vX (pointermove 400 2016 dragged) = vX dragged" by blast
  moreover from T have ld: "lastDelta (pointermove 400 2016 dragged) = - 6250"
    by (simp add: f)
  moreover have "dragging (pointermove 400 2016 dragged)"
    using d by (simp add: pointermove_def Let_def)
  from drag_moves_offset_not_velocity[OF this, of 0 0]
  have "vX (pointerup (pointermove 400 2016 dragged)) = 6250"
    by (simp add: ld DRAG_SENS_def)
  ultimately show ?thesis using d f by simp
qed

text \<open>With a track of 0 neither adjustment changes the position.\<close>

lemma wrapPos_track_zero: "wrapPos x off 0 = x - off"
  by (simp add: wrapPos_def Let_def)

text \<open>
  Claim C5, as the script has it. With \<open>TRACK = 0\<close> the layout pass divides by nothing
  that depends on the track and writes \<open>x - SCROLL_X\<close> for each item; \<open>tick\<close> has no
  guard and takes the offset modulo \<open>TRACK\<close>, so with \<open>TRACK = 0\<close> the offset becomes
  \<open>NaN\<close> and with it every position; with \<open>TRACK > 0\<close> and a finite offset, the offset
  after a tick is finite and in \<open>[0, TRACK)\<close>.
\<close>

theorem track_zero_layout_defined_integration_not:
  "(TRACK s = 0 \<and> SCROLL_X s = Some off \<longrightarrow>
      positions (updateCarouselTransforms s) = map (\<lambda>x. Some (x - off)) (items s)) \<and>
   (TRACK s = 0 \<longrightarrow>
      SCROLL_X (tick t s) = None \<and> positions (tick t s) = map (\<lambda>x. None) (items s)) \<and>
   (0 < TRACK s \<and> SCROLL_X s = Some off \<longrightarrow>
      (\<exists>r. SCROLL_X (tick t s) = Some r \<and> 0 \<le> r \<and> r < TRACK s))"
proof (intro conjI impI)
  assume "TRACK s = 0 \<and> SCROLL_X s = Some off"
  then show "positions (updateCarouselTransforms s) = map (\<lambda>x. Some (x - off)) (items s)"
    by (simp add: updateCarouselTransforms_frame layoutPass_positions wrapPosNum_def wrapPos_track_zero)
next
  assume z: "TRACK s = 0"
  then show "SCROLL_X (tick t s) = None"
    by (simp add: tick_fields mod_js_zero)
  have "positions (tick t s) = fst (layoutPass (TRACK (tick t s)) (SCROLL_X (tick t s)) (items (tick t s)))"
    by (simp add: tick_def Let_def updateCarouselTransforms_frame)
  then show "positions (tick t s) = map (\<lambda>x. None) (items s)"
    using z by (simp add: tick_fields mod_js_zero layoutPass_positions wrapPosNum_def)
next
  assume a: "0 < TRACK s \<and> SCROLL_X s = Some off"
  then have "0 < TRACK s" by simp
  from mod_js_range[OF this, of "off + vX s * tick_dt t s"] a
  show "\<exists>r. SCROLL_X (tick t s) = Some r \<and> 0 \<le> r \<and> r < TRACK s"
    by (auto simp: tick_fields)
qed

theorem track_zero_layout_defined_integration_not_witness:
  "TRACK (initialState 1280 True) = 0 \<and> SCROLL_X (initialState 1280 True) = Some 0 \<and>
   positions (updateCarouselTransforms (initialState 1280 True)) = [] \<and>
   SCROLL_X (tick 16 (initialState 1280 True)) = None \<and>
   0 < TRACK (coasting 100) \<and> SCROLL_X (coasting 100) = Some 0 \<and>
   (\<exists>r. SCROLL_X (tick 1100 (coasting 100)) = Some r \<and> 0 \<le> r \<and> r < 3280)"
proof -
  have i: "TRACK (initialState 1280 True) = 0" "SCROLL_X (initialState 1280 True) = Some 0"
    "items (initialState 1280 True) = []"
    by (simp_all add: initialState_def)
  have c: "TRACK (coasting 100) = 3280" "SCROLL_X (coasting 100) = Some 0"
    by (simp_all add: coasting_def)
  from track_zero_layout_defined_integration_not[of "initialState 1280 True" 0 16] i
  have "positions (updateCarouselTransforms (initialState 1280 True)) = []"
    "SCROLL_X (tick 16 (initialState 1280 True)) = None"
    by simp_all
  moreover from track_zero_layout_defined_integration_not[of "coasting 100" 0 1100] c
  have "\<exists>r. SCROLL_X (tick 1100 (coasting 100)) = Some r \<and> 0 \<le> r \<and> r < 3280"
    by simp
  ultimately show ?thesis using i c by simp
qed

text \<open>
  Claim C5 as stated fails in the state the module starts in when there is no item
  to measure: the first tick makes the offset \<open>NaN\<close>.
\<close>

theorem track_zero_offset_NaN_counterexample:
  "TRACK (initialState 1280 True) = 0 \<and>
   SCROLL_X (initialState 1280 True) = Some 0 \<and>
   SCROLL_X (tick 16 (initialState 1280 True)) = None"
  by (simp add: initialState_def tick_fields mod_js_zero)

section \<open>Properties of the palette extractor\<close>

lemma binIndex_lt: "binIndex h s < SIZE"
  by (simp add: binIndex_def SIZE_def H_BINS_def S_BINS_def Let_def)

lemma pixelBin_lt: "pixelBin px < SIZE"
  by (simp add: pixelBin_def binIndex_lt split: prod.splits)

lemma pixelWeight_pos:
  assumes "counted px"
  shows "0 < pixelWeight px"
proof -
  obtain h s l where hsl: "pixelHsl px = (h, s, l)" by (metis prod_cases3)
  from assms have a: "5 / 100 \<le> real (unat (alpha px)) / 255"
    and l: "1 / 10 \<le> l" "l \<le> 92 / 100" and s: "8 / 100 \<le> s"
    by (simp_all add: counted_def hsl not_less)
  have "0 < real (unat (alpha px)) / 255" using a by linarith
  moreover have "0 < s * s" using s by simp
  moreover have "0 < 1 - \<bar>l - 1 / 2\<bar> * (6 / 10)" using l by (simp add: abs_if) 
  ultimately show ?thesis by (simp add: pixelWeight_def hsl)
qed

text \<open>The loop body in terms of its named parts.\<close>

lemma addPixel_alt:
  "addPixel px hst =
     (if counted px
      then hst\<lparr> wSum := (wSum hst)[pixelBin px := wSum hst ! pixelBin px + pixelWeight px],
               rSum := (rSum hst)[pixelBin px := rSum hst ! pixelBin px + real (unat (red px)) * pixelWeight px],
               gSum := (gSum hst)[pixelBin px := gSum hst ! pixelBin px + real (unat (green px)) * pixelWeight px],
               bSum := (bSum hst)[pixelBin px := bSum hst ! pixelBin px + real (unat (blue px)) * pixelWeight px] \<rparr>
      else hst)"
  by (auto simp: addPixel_def counted_def pixelWeight_def pixelBin_def pixelHsl_def Let_def
           split: prod.splits)

text \<open>One accumulator array on its own.\<close>

lemma accumulate_length:
  fixes f :: "pixel \<Rightarrow> real"
  shows "length (fold (\<lambda>px ys. if counted px then ys[pixelBin px := ys ! pixelBin px + f px] else ys)
                  data xs) = length xs"
  by (induction data arbitrary: xs) simp_all

lemma accumulate_nth:
  fixes f :: "pixel \<Rightarrow> real"
  assumes "b < length xs"
  shows "fold (\<lambda>px ys. if counted px then ys[pixelBin px := ys ! pixelBin px + f px] else ys) data xs ! b
         = xs ! b + sum_list (map f (binPixels data b))"
  using assms
proof (induction data arbitrary: xs)
  case Nil
  then show ?case by (simp add: binPixels_def)
next
  case (Cons px data)
  let ?ys = "if counted px then xs[pixelBin px := xs ! pixelBin px + f px] else xs"
  have len: "b < length ?ys" using Cons.prems by simp
  have hd: "?ys ! b = xs ! b + (if counted px \<and> pixelBin px = b then f px else 0)"
    using Cons.prems by (simp add: nth_list_update)
  from Cons.IH[OF len] hd show ?case
    by (simp add: binPixels_def)
qed

lemma fold_addPixel_fields:
  "wSum (fold addPixel data hst) =
     fold (\<lambda>px ys. if counted px then ys[pixelBin px := ys ! pixelBin px + pixelWeight px] else ys) data (wSum hst)"
  "rSum (fold addPixel data hst) =
     fold (\<lambda>px ys. if counted px then ys[pixelBin px := ys ! pixelBin px + real (unat (red px)) * pixelWeight px] else ys) data (rSum hst)"
  "gSum (fold addPixel data hst) =
     fold (\<lambda>px ys. if counted px then ys[pixelBin px := ys ! pixelBin px + real (unat (green px)) * pixelWeight px] else ys) data (gSum hst)"
  "bSum (fold addPixel data hst) =
     fold (\<lambda>px ys. if counted px then ys[pixelBin px := ys ! pixelBin px + real (unat (blue px)) * pixelWeight px] else ys) data (bSum hst)"
  by (induction data arbitrary: hst; simp add: addPixel_alt)+

text \<open>
  Each bin of the histogram holds the sums over the pixels counted in it: of their
  weights, and of their red, green and blue values multiplied by the weights.
\<close>

lemma histogram_sums:
  assumes "b < SIZE"
  shows "wSum (histogram data) ! b = sum_list (map pixelWeight (binPixels data b))"
    and "rSum (histogram data) ! b = sum_list (map (\<lambda>px. real (unat (red px)) * pixelWeight px) (binPixels data b))"
    and "gSum (histogram data) ! b = sum_list (map (\<lambda>px. real (unat (green px)) * pixelWeight px) (binPixels data b))"
    and "bSum (histogram data) ! b = sum_list (map (\<lambda>px. real (unat (blue px)) * pixelWeight px) (binPixels data b))"
  using assms
  by (simp_all add: histogram_def fold_addPixel_fields emptyHist_def accumulate_nth)

lemma histogram_length: "length (wSum (histogram data)) = SIZE"
  by (simp add: histogram_def fold_addPixel_fields emptyHist_def accumulate_length)

lemma histogram_nonneg:
  assumes "b < SIZE"
  shows "0 \<le> wSum (histogram data) ! b"
proof -
  have "\<forall>px\<in>set (binPixels data b). 0 \<le> pixelWeight px"
    using pixelWeight_pos by (auto simp: binPixels_def intro: less_imp_le)
  then have "0 \<le> sum_list (map pixelWeight (binPixels data b))"
    by (intro sum_list_nonneg) auto
  then show ?thesis
    by (simp add: histogram_sums(1)[OF assms])
qed

text \<open>
  The primary search either finds nothing above the weight it starts from, or ends on
  the first bin of greatest weight.
\<close>

lemma primaryLoop_spec:
  assumes "primaryLoop ws i pIdx pW = (p', w')"
  shows "(p' = pIdx \<and> w' = pW \<and> (\<forall>k<length ws. ws ! k \<le> pW)) \<or>
         (\<exists>k<length ws. p' = int (i + k) \<and> w' = ws ! k \<and> pW < ws ! k \<and>
             (\<forall>j<length ws. ws ! j \<le> ws ! k) \<and> (\<forall>j<k. ws ! j < ws ! k))"
  using assms
proof (induction ws arbitrary: i pIdx pW)
  case Nil
  then show ?case by simp
next
  case (Cons w ws)
  show ?case
  proof (cases "pW < w")
    case True
    then have rec: "primaryLoop ws (Suc i) (int i) w = (p', w')"
      using Cons.prems by simp
    from Cons.IH[OF rec]
    show ?thesis
    proof
      assume a: "p' = int i \<and> w' = w \<and> (\<forall>k<length ws. ws ! k \<le> w)"
      have "0 < length (w # ws) \<and> p' = int (i + 0) \<and> w' = (w # ws) ! 0 \<and> pW < (w # ws) ! 0 \<and>
             (\<forall>j<length (w # ws). (w # ws) ! j \<le> (w # ws) ! 0) \<and> (\<forall>j<0. (w # ws) ! j < (w # ws) ! 0)"
        using a True by (auto simp: nth_Cons')
      then show ?thesis by blast
    next
      assume "\<exists>k<length ws. p' = int (Suc i + k) \<and> w' = ws ! k \<and> w < ws ! k \<and>
             (\<forall>j<length ws. ws ! j \<le> ws ! k) \<and> (\<forall>j<k. ws ! j < ws ! k)"
      then obtain k where k: "k < length ws" "p' = int (Suc i + k)" "w' = ws ! k" "w < ws ! k"
        "\<forall>j<length ws. ws ! j \<le> ws ! k" "\<forall>j<k. ws ! j < ws ! k" by auto
      have "Suc k < length (w # ws) \<and> p' = int (i + Suc k) \<and> w' = (w # ws) ! Suc k \<and>
             pW < (w # ws) ! Suc k \<and>
             (\<forall>j<length (w # ws). (w # ws) ! j \<le> (w # ws) ! Suc k) \<and>
             (\<forall>j<Suc k. (w # ws) ! j < (w # ws) ! Suc k)"
        using k True by (auto simp: nth_Cons' less_Suc_eq_0_disj)
      then show ?thesis by blast
    qed
  next
    case False
    then have rec: "primaryLoop ws (Suc i) pIdx pW = (p', w')"
      using Cons.prems by simp
    from Cons.IH[OF rec]
    show ?thesis
    proof
      assume a: "p' = pIdx \<and> w' = pW \<and> (\<forall>k<length ws. ws ! k \<le> pW)"
      then have "p' = pIdx \<and> w' = pW \<and> (\<forall>k<length (w # ws). (w # ws) ! k \<le> pW)"
        using False by (auto simp: nth_Cons')
      then show ?thesis by blast
    next
      assume "\<exists>k<length ws. p' = int (Suc i + k) \<and> w' = ws ! k \<and> pW < ws ! k \<and>
             (\<forall>j<length ws. ws ! j \<le> ws ! k) \<and> (\<forall>j<k. ws ! j < ws ! k)"
      then obtain k where k: "k < length ws" "p' = int (Suc i + k)" "w' = ws ! k" "pW < ws ! k"
        "\<forall>j<length ws. ws ! j \<le> ws ! k" "\<forall>j<k. ws ! j < ws ! k" by auto
      have "Suc k < length (w # ws) \<and> p' = int (i + Suc k) \<and> w' = (w # ws) ! Suc k \<and>
             pW < (w # ws) ! Suc k \<and>
             (\<forall>j<length (w # ws). (w # ws) ! j \<le> (w # ws) ! Suc k) \<and>
             (\<forall>j<Suc k. (w # ws) ! j < (w # ws) ! Suc k)"
        using k False by (auto simp: nth_Cons' less_Suc_eq_0_disj)
      then show ?thesis by blast
    qed
  qed
qed


text \<open>From the initial values \<open>pIdx = -1\<close>, \<open>pW = 0\<close>, over the histogram of a buffer.\<close>

lemma findPrimary_none:
  assumes "\<forall>b<SIZE. wSum (histogram data) ! b \<le> 0"
  shows "findPrimary (histogram data) = (- 1, 0)"
proof -
  obtain p' w' where r: "primaryLoop (wSum (histogram data)) 0 (- 1) 0 = (p', w')"
    by (metis surj_pair)
  from primaryLoop_spec[OF r] assms have "p' = - 1 \<and> w' = 0"
    by (auto simp: histogram_length not_less[symmetric])
  with r show ?thesis by (simp add: findPrimary_def)
qed


text \<open>A fully transparent pixel and a gray pixel are skipped.\<close>

lemma not_counted_transparent: "alpha px = 0 \<Longrightarrow> \<not> counted px"
  by (simp add: counted_def split: prod.splits)

lemma not_counted_gray: "red px = green px \<Longrightarrow> green px = blue px \<Longrightarrow> \<not> counted px"
  by (simp add: counted_def pixelHsl_def rgbToHsl_def Let_def)

lemma no_counted_no_weight:
  assumes "\<forall>px\<in>set data. \<not> counted px" "b < SIZE"
  shows "wSum (histogram data) ! b = 0"
proof -
  have "binPixels data b = []" using assms(1) by (auto simp: binPixels_def filter_empty_conv)
  then show ?thesis by (simp add: histogram_sums(1)[OF assms(2)])
qed

lemma extractColors_fallback:
  assumes "\<forall>b<SIZE. wSum (histogram data) ! b \<le> 0"
  shows "extractColors (ImageData data) idx = fallbackFromIndex idx"
  by (simp add: extractColors_def Let_def findPrimary_none[OF assms])

lemma fallbackHue_small: "i < 10 \<Longrightarrow> fallbackHue i = i * 37"
  by (simp add: fallbackHue_def)

text \<open>
  Claim C8: \<open>extractColors\<close> has a result for every input and index. When the pixel
  buffer cannot be had, when no bin has positive weight, and so when every pixel is
  fully transparent or gray, the result is \<open>fallbackFromIndex idx\<close>: the hue
  \<open>(idx * 37) mod 360\<close> at saturation 0.65 and lightness 0.52 and 0.72. The hues of the
  indices 0 to 9 are pairwise distinct.
\<close>

theorem palette_fallback:
  "extractColors Unreadable idx = fallbackFromIndex idx \<and>
   ((\<forall>b<SIZE. wSum (histogram data) ! b \<le> 0) \<longrightarrow>
      extractColors (ImageData data) idx = fallbackFromIndex idx) \<and>
   ((\<forall>px\<in>set data. alpha px = 0 \<or> (red px = green px \<and> green px = blue px)) \<longrightarrow>
      extractColors (ImageData data) idx = fallbackFromIndex idx) \<and>
   fallbackFromIndex idx =
     \<lparr> c1 = hslToRgb (real ((idx * 37) mod 360)) (65 / 100) (52 / 100),
       c2 = hslToRgb (real ((idx * 37) mod 360)) (65 / 100) (72 / 100) \<rparr> \<and>
   (\<forall>i<10. \<forall>j<10. i \<noteq> j \<longrightarrow> fallbackHue i \<noteq> fallbackHue j)"
proof (intro conjI impI allI)
  show "extractColors Unreadable idx = fallbackFromIndex idx"
    by (simp add: extractColors_def)
next
  assume "\<forall>b<SIZE. wSum (histogram data) ! b \<le> 0"
  then show "extractColors (ImageData data) idx = fallbackFromIndex idx"
    by (rule extractColors_fallback)
next
  assume "\<forall>px\<in>set data. alpha px = 0 \<or> (red px = green px \<and> green px = blue px)"
  then have "\<forall>px\<in>set data. \<not> counted px"
    using not_counted_transparent not_counted_gray by blast
  then have "\<forall>b<SIZE. wSum (histogram data) ! b \<le> 0"
    by (simp add: no_counted_no_weight)
  then show "extractColors (ImageData data) idx = fallbackFromIndex idx"
    by (rule extractColors_fallback)
next
  show "fallbackFromIndex idx =
     \<lparr> c1 = hslToRgb (real ((idx * 37) mod 360)) (65 / 100) (52 / 100),
       c2 = hslToRgb (real ((idx * 37) mod 360)) (65 / 100) (72 / 100) \<rparr>"
    by (simp add: fallbackFromIndex_def fallbackHue_def Let_def)
next
  fix i j :: nat assume "i < 10" "j < 10" "i \<noteq> j"
  then show "fallbackHue i \<noteq> fallbackHue j"
    by (simp add: fallbackHue_small)
qed

text \<open>
  Evaluating \<open>hslToRgb\<close>: a hue in \<open>[0, 360)\<close> is its own normal form, and for a
  saturation other than 0 each channel is \<open>hue2rgb\<close> at the hue shifted by a third of
  the circle, times 255, rounded.
\<close>

lemma hue_norm:
  assumes "0 \<le> h" "h < 360"
  shows "fmod (fmod h 360 + 360) 360 = h"
proof -
  have a: "\<lfloor>h / 360\<rfloor> = 0" using assms by (simp add: floor_eq_iff)
  then have f: "fmod h 360 = h" using assms by (simp add: fmod_def trunc_def)
  have b: "\<lfloor>(h + 360) / 360\<rfloor> = 1" using assms by (simp add: floor_eq_iff)
  show ?thesis using assms by (simp add: f) (simp add: fmod_def trunc_def b)
qed

lemma hslToRgb_light:
  assumes "s \<noteq> 0" "0 \<le> h" "h < 360" "1 / 2 \<le> l" "q = l + s - l * s" "p = 2 * l - q"
  shows "hslToRgb h s l =
     (js_round (hue2rgb p q (h / 360 + 1 / 3) * 255),
      js_round (hue2rgb p q (h / 360) * 255),
      js_round (hue2rgb p q (h / 360 - 1 / 3) * 255))"
  using assms by (simp add: hslToRgb_def Let_def hue_norm)


text \<open>An all-transparent thumbnail for item 3 gives the pair of hue 111.\<close>

lemma hslToRgb_111_52: "hslToRgb 111 (65 / 100) (52 / 100) = (77, 212, 53)"
proof -
  have r: "js_round (hue2rgb (208 / 1000) (832 / 1000) (111 / 360 + 1 / 3) * 255) = 77"
    by (simp add: hue2rgb_def Let_def js_round_def)
  have g: "js_round (hue2rgb (208 / 1000) (832 / 1000) (111 / 360) * 255) = 212"
    by (simp add: hue2rgb_def Let_def js_round_def)
  have b: "js_round (hue2rgb (208 / 1000) (832 / 1000) (111 / 360 - 1 / 3) * 255) = 53"
    by (simp add: hue2rgb_def Let_def js_round_def)
  have "hslToRgb 111 (65 / 100) (52 / 100) =
     (js_round (hue2rgb (208 / 1000) (832 / 1000) (111 / 360 + 1 / 3) * 255),
      js_round (hue2rgb (208 / 1000) (832 / 1000) (111 / 360) * 255),
      js_round (hue2rgb (208 / 1000) (832 / 1000) (111 / 360 - 1 / 3) * 255))"
    by (rule hslToRgb_light) simp_all
  then show ?thesis by (simp only: r g b)
qed

lemma hslToRgb_111_72: "hslToRgb 111 (65 / 100) (72 / 100) = (151, 230, 137)"
proof -
  have r: "js_round (hue2rgb (538 / 1000) (902 / 1000) (111 / 360 + 1 / 3) * 255) = 151"
    by (simp add: hue2rgb_def Let_def js_round_def)
  have g: "js_round (hue2rgb (538 / 1000) (902 / 1000) (111 / 360) * 255) = 230"
    by (simp add: hue2rgb_def Let_def js_round_def)
  have b: "js_round (hue2rgb (538 / 1000) (902 / 1000) (111 / 360 - 1 / 3) * 255) = 137"
    by (simp add: hue2rgb_def Let_def js_round_def)
  have "hslToRgb 111 (65 / 100) (72 / 100) =
     (js_round (hue2rgb (538 / 1000) (902 / 1000) (111 / 360 + 1 / 3) * 255),
      js_round (hue2rgb (538 / 1000) (902 / 1000) (111 / 360) * 255),
      js_round (hue2rgb (538 / 1000) (902 / 1000) (111 / 360 - 1 / 3) * 255))"
    by (rule hslToRgb_light) simp_all
  then show ?thesis by (simp only: r g b)
qed

theorem palette_fallback_witness:
  "alpha clearPixel = 0 \<and>
   extractColors (ImageData (replicate 768 clearPixel)) 3 =
     \<lparr> c1 = (77, 212, 53), c2 = (151, 230, 137) \<rparr> \<and>
   fallbackHue 3 = 111 \<and> fallbackHue 7 = 259"
proof -
  have t: "\<forall>px\<in>set (replicate 768 clearPixel). alpha px = 0 \<or> (red px = green px \<and> green px = blue px)"
    by (simp add: clearPixel_def)
  note T = palette_fallback[of 3 "replicate 768 clearPixel"]
  from T t have "extractColors (ImageData (replicate 768 clearPixel)) 3 = fallbackFromIndex 3"
    by blast
  moreover from T have "fallbackFromIndex 3 =
     \<lparr> c1 = hslToRgb (real ((3 * 37) mod 360)) (65 / 100) (52 / 100),
       c2 = hslToRgb (real ((3 * 37) mod 360)) (65 / 100) (72 / 100) \<rparr>"
    by blast
  ultimately have "extractColors (ImageData (replicate 768 clearPixel)) 3 =
     \<lparr> c1 = (77, 212, 53), c2 = (151, 230, 137) \<rparr>"
    using hslToRgb_111_52 hslToRgb_111_72 by simp
  moreover have "fallbackHue 3 = 111 \<and> fallbackHue 7 = 259"
    by (simp add: fallbackHue_def)
  moreover have "alpha clearPixel = 0"
    by (simp add: clearPixel_def)
  ultimately show ?thesis by blast
qed



































end
